theory Spec2Isabelle
  imports Main
begin

section \<open>The document: elements, class lists, listeners\<close>

text \<open>
  The script of \<^verbatim>\<open>style.js\<close> acts on a browser document. The document is modelled as the
  list of its elements in document order; an element is known by its index in that list.
  Only the attributes, styles and properties the script reads or writes are kept. The body
  element, the storage area, the location and the observer of \<^verbatim>\<open>initializeAnimations\<close>
  are fields of the page.
\<close>

datatype js_error = TypeError

datatype listener = MobileNavClick | ThemeToggleClick

record element =
  attr_id :: "string option"
  classList :: "string list"
  attr_href :: "string option"
  attr_data_animate :: "string option"
  style_opacity :: "string option"
  style_animation :: "string option"
  textContent :: string
  click_listeners :: "listener list"

record entry =
  target :: nat
  isIntersecting :: bool

record page =
  elements :: "element list"
  body_classList :: "string list"
  localStorage :: "string \<Rightarrow> string option"
  location_pathname :: string
  has_IntersectionObserver :: bool
  observed :: "nat list"
  animation_writes :: "(nat \<times> string) list"

text \<open>
  \<^verbatim>\<open>classList\<close> is an ordered set of tokens: \<^verbatim>\<open>add\<close> appends a token that is absent,
  \<^verbatim>\<open>remove\<close> deletes it, \<^verbatim>\<open>toggle\<close> removes a present token and adds an absent one.
\<close>

definition classList_contains :: "string \<Rightarrow> string list \<Rightarrow> bool" where
  "classList_contains c cs = (c \<in> set cs)"

definition classList_add :: "string \<Rightarrow> string list \<Rightarrow> string list" where
  "classList_add c cs = (if c \<in> set cs then cs else cs @ [c])"

definition classList_remove :: "string \<Rightarrow> string list \<Rightarrow> string list" where
  "classList_remove c cs = filter (\<lambda>x. x \<noteq> c) cs"

definition classList_toggle :: "string \<Rightarrow> string list \<Rightarrow> string list" where
  "classList_toggle c cs = (if c \<in> set cs then classList_remove c cs else classList_add c cs)"

text \<open>Lookups. A selector \<^verbatim>\<open>.c\<close> matches the elements whose class list holds \<open>c\<close>.\<close>

definition querySelectorAll_class :: "string \<Rightarrow> page \<Rightarrow> nat list" where
  "querySelectorAll_class c p =
     filter (\<lambda>i. classList_contains c (classList (elements p ! i))) [0..<length (elements p)]"

definition querySelectorAll_data_animate :: "page \<Rightarrow> nat list" where
  "querySelectorAll_data_animate p =
     filter (\<lambda>i. attr_data_animate (elements p ! i) \<noteq> None) [0..<length (elements p)]"

definition querySelector_class :: "string \<Rightarrow> page \<Rightarrow> nat option" where
  "querySelector_class c p =
     (case querySelectorAll_class c p of [] \<Rightarrow> None | i # _ \<Rightarrow> Some i)"

definition getElementById :: "string \<Rightarrow> page \<Rightarrow> nat option" where
  "getElementById s p =
     (case filter (\<lambda>i. attr_id (elements p ! i) = Some s) [0..<length (elements p)] of
        [] \<Rightarrow> None | i # _ \<Rightarrow> Some i)"

definition update_element :: "nat \<Rightarrow> (element \<Rightarrow> element) \<Rightarrow> page \<Rightarrow> page" where
  "update_element i f p = p\<lparr>elements := (elements p)[i := f (elements p ! i)]\<rparr>"

definition forEach :: "nat list \<Rightarrow> (nat \<Rightarrow> page \<Rightarrow> page) \<Rightarrow> page \<Rightarrow> page" where
  "forEach nodes callback p = fold callback nodes p"

definition addEventListener :: "nat \<Rightarrow> listener \<Rightarrow> page \<Rightarrow> page" where
  "addEventListener i l p =
     update_element i (\<lambda>e. e\<lparr>click_listeners := click_listeners e @ [l]\<rparr>) p"


section \<open>Navigation\<close>

text \<open>
  \<^verbatim>\<open>pathname.split('/')\<close> cuts the path at every slash and always yields at least one
  piece; \<^verbatim>\<open>pop()\<close> takes the last piece (\<^verbatim>\<open>undefined\<close> on an empty array, here \<open>None\<close>);
  \<^verbatim>\<open>|| 'index.html'\<close> replaces a falsy result, the empty string or \<^verbatim>\<open>undefined\<close>.
\<close>

fun js_split :: "'a \<Rightarrow> 'a list \<Rightarrow> 'a list list" where
  "js_split sep [] = [[]]"
| "js_split sep (c # cs) =
     (if c = sep then [] # js_split sep cs
      else (case js_split sep cs of [] \<Rightarrow> [[c]] | w # ws \<Rightarrow> (c # w) # ws))"

definition pop :: "'a list \<Rightarrow> 'a option" where
  "pop xs = (if xs = [] then None else Some (last xs))"

definition currentPage :: "string \<Rightarrow> string" where
  "currentPage pathname =
     (case pop (js_split (CHR ''/'') pathname) of
        None \<Rightarrow> ''index.html''
      | Some s \<Rightarrow> if s = [] then ''index.html'' else s)"

definition mark_link :: "string \<Rightarrow> element \<Rightarrow> element" where
  "mark_link cur link =
     (let linkPage = attr_href link in
      if linkPage = Some cur
      then link\<lparr>classList := classList_add ''active'' (classList link)\<rparr>
      else link\<lparr>classList := classList_remove ''active'' (classList link)\<rparr>)"

definition initializeNavigation :: "page \<Rightarrow> page" where
  "initializeNavigation p =
     (let cur = currentPage (location_pathname p);
          navLinks = querySelectorAll_class ''nav-link'' p;
          p1 = forEach navLinks (\<lambda>i. update_element i (mark_link cur)) p
      in case getElementById ''mobile-nav-toggle'' p1 of
           None \<Rightarrow> p1
         | Some t \<Rightarrow> addEventListener t MobileNavClick p1)"

text \<open>
  The click handler registered on the mobile toggle. It looks the container up when it
  runs and reads \<^verbatim>\<open>classList\<close> of the result with no check: on \<^verbatim>\<open>null\<close> that read
  raises a \<^verbatim>\<open>TypeError\<close>.
\<close>

definition mobileNavClick :: "page \<Rightarrow> js_error + page" where
  "mobileNavClick p =
     (case querySelector_class ''nav-links'' p of
        None \<Rightarrow> Inl TypeError
      | Some c \<Rightarrow>
          Inr (update_element c
                 (\<lambda>e. e\<lparr>classList := classList_toggle ''mobile-active'' (classList e)\<rparr>) p))"


section \<open>Theme\<close>

text \<open>
  The icon of the toggle is the moon for the light theme and the sun for the dark one,
  here as the bytes of their UTF-8 encoding. The handler of the toggle flips the marker of
  the body, stores the new theme and updates the icon; \<open>initializeTheme\<close> registers the
  handler and restores a stored light theme, both only when the toggle exists.
\<close>

definition themeToggleIcon :: "bool \<Rightarrow> string" where
  "themeToggleIcon isLight =
     (if isLight then [CHR 0xF0, CHR 0x9F, CHR 0x8C, CHR 0x99]
      else [CHR 0xE2, CHR 0x98, CHR 0x80, CHR 0xEF, CHR 0xB8, CHR 0x8F])"

definition updateThemeIcon :: "bool \<Rightarrow> page \<Rightarrow> page" where
  "updateThemeIcon isLight p =
     (case getElementById ''theme-toggle'' p of
        None \<Rightarrow> p
      | Some t \<Rightarrow> update_element t (\<lambda>e. e\<lparr>textContent := themeToggleIcon isLight\<rparr>) p)"

definition themeToggleClick :: "page \<Rightarrow> js_error + page" where
  "themeToggleClick p =
     (let p1 = p\<lparr>body_classList := classList_toggle ''light-theme'' (body_classList p)\<rparr>;
          isLight = classList_contains ''light-theme'' (body_classList p1);
          p2 = p1\<lparr>localStorage :=
                   (localStorage p1)(''theme'' := Some (if isLight then ''light'' else ''dark''))\<rparr>
      in Inr (updateThemeIcon isLight p2))"

definition initializeTheme :: "page \<Rightarrow> page" where
  "initializeTheme p =
     (case getElementById ''theme-toggle'' p of
        None \<Rightarrow> p
      | Some t \<Rightarrow>
          (let p1 = addEventListener t ThemeToggleClick p;
               savedTheme = localStorage p1 ''theme''
           in if savedTheme = Some ''light''
              then updateThemeIcon True
                     (p1\<lparr>body_classList := classList_add ''light-theme'' (body_classList p1)\<rparr>)
              else p1))"

text \<open>
  A click on element \<open>i\<close> runs its listeners in order. An error a listener raises is
  reported and does not stop the later listeners; the reported errors are collected.
\<close>

fun run_listener :: "listener \<Rightarrow> page \<Rightarrow> js_error + page" where
  "run_listener MobileNavClick p = mobileNavClick p"
| "run_listener ThemeToggleClick p = themeToggleClick p"

fun dispatch :: "listener list \<Rightarrow> js_error list \<times> page \<Rightarrow> js_error list \<times> page" where
  "dispatch [] r = r"
| "dispatch (l # ls) (errs, p) =
     (case run_listener l p of
        Inl e \<Rightarrow> dispatch ls (errs @ [e], p)
      | Inr p' \<Rightarrow> dispatch ls (errs, p'))"

definition click :: "nat \<Rightarrow> page \<Rightarrow> js_error list \<times> page" where
  "click i p =
     (if i < length (elements p) then dispatch (click_listeners (elements p ! i)) ([], p)
      else ([], p))"


section \<open>Scroll animations\<close>

text \<open>
  The observer keeps the list of its targets. The browser reports visibility changes to the
  callback in batches of entries, and only for elements that are targets when the batch is
  made up. Every assignment to \<^verbatim>\<open>style.animation\<close> is also recorded in the trace
  \<open>animation_writes\<close>, so that the number of times the style is applied can be counted.
\<close>

definition observe :: "nat \<Rightarrow> page \<Rightarrow> page" where
  "observe i p = (if i \<in> set (observed p) then p else p\<lparr>observed := observed p @ [i]\<rparr>)"

definition unobserve :: "nat \<Rightarrow> page \<Rightarrow> page" where
  "unobserve i p = p\<lparr>observed := filter (\<lambda>j. j \<noteq> i) (observed p)\<rparr>"

definition animation_name :: "element \<Rightarrow> string" where
  "animation_name e =
     (case attr_data_animate e of
        None \<Rightarrow> ''fadeInUp''
      | Some a \<Rightarrow> if a = [] then ''fadeInUp'' else a)"

definition animation_style :: "element \<Rightarrow> string" where
  "animation_style e = animation_name e @ '' 0.6s ease forwards''"

definition on_entry :: "entry \<Rightarrow> page \<Rightarrow> page" where
  "on_entry en p =
     (if isIntersecting en
      then (let el = target en;
                v = animation_style (elements p ! el);
                p1 = update_element el (\<lambda>e. e\<lparr>style_animation := Some v\<rparr>) p;
                p2 = p1\<lparr>animation_writes := animation_writes p1 @ [(el, v)]\<rparr>
            in unobserve el p2)
      else p)"




definition initializeAnimations :: "page \<Rightarrow> page" where
  "initializeAnimations p =
     (let animatedElements = querySelectorAll_data_animate p in
      if length animatedElements > 0 \<and> has_IntersectionObserver p
      then forEach animatedElements
             (\<lambda>i q. observe i (update_element i (\<lambda>e. e\<lparr>style_opacity := Some ''0''\<rparr>) q))
             (p\<lparr>observed := []\<rparr>)
      else p)"

definition DOMContentLoaded :: "page \<Rightarrow> page" where
  "DOMContentLoaded p = initializeTheme (initializeAnimations (initializeNavigation p))"


section \<open>Timers, debounce and throttle\<close>

text \<open>
  Time is a natural number of milliseconds. A pending timeout is a handle, the time it is
  due and the callback it will run; \<^verbatim>\<open>setTimeout\<close> appends one with a fresh handle,
  \<^verbatim>\<open>clearTimeout\<close> drops the one with the given handle (\<^verbatim>\<open>undefined\<close>, here \<open>None\<close>, and
  a handle that is no longer pending drop nothing). The event loop runs a timeout when it
  is due: the one due first, and among equals the one set first. Timeouts due at the time
  of a wrapper call run before that call.

  The function handed to \<^verbatim>\<open>debounce\<close> or \<^verbatim>\<open>throttle\<close> is any function from the argument
  list to a result or a raised error. Each of its invocations is recorded with its time
  and arguments.
\<close>

datatype 'v js_value = Undefined | Null | Value 'v

definition setTimeout :: "'c \<Rightarrow> nat \<Rightarrow> nat \<Rightarrow> nat \<Rightarrow> (nat \<times> nat \<times> 'c) list \<Rightarrow> (nat \<times> nat \<times> 'c) list" where
  "setTimeout callback delay now handle ts = ts @ [(handle, now + delay, callback)]"

definition clearTimeout :: "nat option \<Rightarrow> (nat \<times> nat \<times> 'c) list \<Rightarrow> (nat \<times> nat \<times> 'c) list" where
  "clearTimeout handle ts =
     (case handle of None \<Rightarrow> ts | Some h \<Rightarrow> filter (\<lambda>t. fst t \<noteq> h) ts)"

definition next_due :: "nat \<Rightarrow> (nat \<times> nat \<times> 'c) list \<Rightarrow> (nat \<times> nat \<times> 'c) option" where
  "next_due T ts =
     (case filter (\<lambda>t. fst (snd t) \<le> T) ts of
        [] \<Rightarrow> None
      | x # xs \<Rightarrow> Some (arg_min_list (\<lambda>t. fst (snd t)) (x # xs)))"

text \<open>
  \<^verbatim>\<open>debounce(func, wait)\<close> returns the closure \<^verbatim>\<open>executedFunction\<close> over a fresh variable
  \<^verbatim>\<open>timeout\<close>. The state of one such closure and of the event loop around it: the clock,
  the pending timeouts (each with the arguments its \<^verbatim>\<open>later\<close> was created for), the next
  free handle, the variable \<^verbatim>\<open>timeout\<close> and the invocations of \<^verbatim>\<open>func\<close> so far. The
  state right after the call of \<^verbatim>\<open>debounce\<close> is \<open>debounce\<close>. \<open>later\<close> is the callback of a
  timeout; \<open>d_advance func T\<close> lets the time pass until \<open>T\<close> and runs the timeouts that
  fall due; \<open>d_run\<close> makes the wrapper calls of a list, each at its time.
\<close>

record 'a debounce_state =
  d_now :: nat
  d_timers :: "(nat \<times> nat \<times> 'a list) list"
  d_next_handle :: nat
  timeout :: "nat option"
  d_calls :: "(nat \<times> 'a list) list"

definition debounce :: "'a debounce_state" where
  "debounce = \<lparr>d_now = 0, d_timers = [], d_next_handle = 1, timeout = None, d_calls = []\<rparr>"

definition later :: "('a list \<Rightarrow> 'e + 'v) \<Rightarrow> 'a list \<Rightarrow> 'a debounce_state \<Rightarrow> ('e + 'v js_value) \<times> 'a debounce_state" where
  "later func args s =
     (let s1 = s\<lparr>d_timers := clearTimeout (timeout s) (d_timers s)\<rparr>;
          s2 = s1\<lparr>d_calls := d_calls s1 @ [(d_now s1, args)]\<rparr>
      in (case func args of Inl e \<Rightarrow> (Inl e, s2) | Inr v \<Rightarrow> (Inr Undefined, s2)))"

definition executedFunction :: "nat \<Rightarrow> 'a list \<Rightarrow> 'a debounce_state \<Rightarrow> 'v js_value \<times> 'a debounce_state" where
  "executedFunction wait args s =
     (let s1 = s\<lparr>d_timers := clearTimeout (timeout s) (d_timers s)\<rparr>;
          h = d_next_handle s1;
          s2 = s1\<lparr>d_timers := setTimeout args wait (d_now s1) h (d_timers s1),
                  d_next_handle := Suc h, timeout := Some h\<rparr>
      in (Undefined, s2))"

function d_advance :: "('a list \<Rightarrow> 'e + 'v) \<Rightarrow> nat \<Rightarrow> 'a debounce_state \<Rightarrow> 'a debounce_state" where
  "d_advance func T s =
     (case next_due T (d_timers s) of
        None \<Rightarrow> s\<lparr>d_now := max (d_now s) T\<rparr>
      | Some t \<Rightarrow>
          d_advance func T
            (snd (later func (snd (snd t))
               (s\<lparr>d_now := max (d_now s) (fst (snd t)),
                   d_timers := filter (\<lambda>u. fst u \<noteq> fst t) (d_timers s)\<rparr>))))"
  by pat_completeness auto
termination
proof (relation "measure (\<lambda>(func, T, s). length (d_timers s))", goal_cases)
  case 1
  show ?case by simp
next
  case (2 func T s t)
  from 2 obtain x xs where f: "filter (\<lambda>t. fst (snd t) \<le> T) (d_timers s) = x # xs"
    and t: "t = arg_min_list (\<lambda>t. fst (snd t)) (x # xs)"
    by (auto simp: next_due_def split: list.splits)
  have "t \<in> set (x # xs)" unfolding t by (rule arg_min_list_in) simp
  then have "t \<in> set (d_timers s)" using f by (metis filter_is_subset subsetD)
  then have "length (filter (\<lambda>u. fst u \<noteq> fst t) (d_timers s)) < length (d_timers s)"
    by (intro length_filter_less[of t]) auto
  moreover have "length (clearTimeout h ts) \<le> length ts" for h and ts :: "(nat \<times> nat \<times> 'a list) list"
    by (simp add: clearTimeout_def split: option.splits)
  ultimately show ?case
    by (auto simp: later_def Let_def split: sum.splits intro: le_less_trans)
qed

fun d_run :: "('a list \<Rightarrow> 'e + 'v) \<Rightarrow> nat \<Rightarrow> (nat \<times> 'a list) list \<Rightarrow> 'a debounce_state \<Rightarrow> 'a debounce_state" where
  "d_run func wait [] s = s"
| "d_run func wait (c # cs) s =
     d_run func wait cs
       (snd (executedFunction wait (snd c) (d_advance func (fst c) s) :: unit js_value \<times> 'a debounce_state))"

text \<open>
  \<^verbatim>\<open>throttle(func, limit)\<close> returns a function, here \<open>throttled\<close>, over a fresh variable
  \<^verbatim>\<open>inThrottle\<close> (\<^verbatim>\<open>undefined\<close> at first, which counts as false). It calls \<^verbatim>\<open>func\<close> first
  and sets the flag and the timeout afterwards, so that an error raised by \<^verbatim>\<open>func\<close>
  leaves both as they were. The callback of the timeout clears the flag.
\<close>

record 'a throttle_state =
  t_now :: nat
  t_timers :: "(nat \<times> nat \<times> unit) list"
  t_next_handle :: nat
  inThrottle :: bool
  t_calls :: "(nat \<times> 'a list) list"



function t_advance :: "nat \<Rightarrow> 'a throttle_state \<Rightarrow> 'a throttle_state" where
  "t_advance T s =
     (case next_due T (t_timers s) of
        None \<Rightarrow> s\<lparr>t_now := max (t_now s) T\<rparr>
      | Some t \<Rightarrow>
          t_advance T
            (s\<lparr>t_now := max (t_now s) (fst (snd t)),
                t_timers := filter (\<lambda>u. fst u \<noteq> fst t) (t_timers s),
                inThrottle := False\<rparr>))"
  by pat_completeness auto
termination
proof (relation "measure (\<lambda>(T, s). length (t_timers s))", goal_cases)
  case 1
  show ?case by simp
next
  case (2 T s t)
  from 2 obtain x xs where f: "filter (\<lambda>t. fst (snd t) \<le> T) (t_timers s) = x # xs"
    and t: "t = arg_min_list (\<lambda>t. fst (snd t)) (x # xs)"
    by (auto simp: next_due_def split: list.splits)
  have "t \<in> set (x # xs)" unfolding t by (rule arg_min_list_in) simp
  then have "t \<in> set (t_timers s)" using f by (metis filter_is_subset subsetD)
  then have "length (filter (\<lambda>u. fst u \<noteq> fst t) (t_timers s)) < length (t_timers s)"
    by (intro length_filter_less[of t]) auto
  then show ?case by simp
qed



section \<open>Copy to clipboard\<close>

text \<open>
  The environment of \<^verbatim>\<open>copyToClipboard\<close>: \<^verbatim>\<open>navigator.clipboard\<close> is an object with a
  \<^verbatim>\<open>writeText\<close> method that returns a promise, or it is \<^verbatim>\<open>undefined\<close> (\<open>None\<close>), as in a
  browser without the clipboard interface or on a page that is not a secure context;
  \<^verbatim>\<open>document.execCommand('copy')\<close> returns a boolean or raises. A promise is given by the
  state it settles in. The document keeps the children of the body and a trace of the
  operations on it.
\<close>

datatype 'a promise = Resolved 'a | Rejected

datatype dom_op = CreateElement nat | AppendChild nat | Select nat | RemoveChild nat

record document =
  next_node :: nat
  body_children :: "nat list"
  dom_trace :: "dom_op list"

record navigator =
  clipboard :: "(string \<Rightarrow> unit promise) option"
  execCommand_copy :: "string \<Rightarrow> js_error + bool"

definition then_promise :: "'a promise \<Rightarrow> ('a \<Rightarrow> 'b) \<Rightarrow> 'b promise" where
  "then_promise pr f = (case pr of Resolved v \<Rightarrow> Resolved (f v) | Rejected \<Rightarrow> Rejected)"

definition catch_promise :: "'a promise \<Rightarrow> (document \<Rightarrow> 'a \<times> document) \<Rightarrow> document \<Rightarrow> 'a promise \<times> document" where
  "catch_promise pr handler d =
     (case pr of
        Resolved v \<Rightarrow> (Resolved v, d)
      | Rejected \<Rightarrow> (let (v, d') = handler d in (Resolved v, d')))"

definition createElement :: "document \<Rightarrow> nat \<times> document" where
  "createElement d =
     (next_node d, d\<lparr>next_node := Suc (next_node d), dom_trace := dom_trace d @ [CreateElement (next_node d)]\<rparr>)"

definition appendChild :: "nat \<Rightarrow> document \<Rightarrow> document" where
  "appendChild n d =
     d\<lparr>body_children := filter (\<lambda>m. m \<noteq> n) (body_children d) @ [n],
        dom_trace := dom_trace d @ [AppendChild n]\<rparr>"

definition select :: "nat \<Rightarrow> document \<Rightarrow> document" where
  "select n d = d\<lparr>dom_trace := dom_trace d @ [Select n]\<rparr>"

definition removeChild :: "nat \<Rightarrow> document \<Rightarrow> document" where
  "removeChild n d =
     d\<lparr>body_children := filter (\<lambda>m. m \<noteq> n) (body_children d),
        dom_trace := dom_trace d @ [RemoveChild n]\<rparr>"

definition fallback_copy :: "navigator \<Rightarrow> string \<Rightarrow> document \<Rightarrow> bool \<times> document" where
  "fallback_copy nav text d =
     (let (textArea, d1) = createElement d;
          d2 = appendChild textArea d1;
          d3 = select textArea d2
      in case execCommand_copy nav text of
           Inr _ \<Rightarrow> (True, removeChild textArea d3)
         | Inl err \<Rightarrow> (False, removeChild textArea d3))"

definition copyToClipboard :: "navigator \<Rightarrow> string \<Rightarrow> document \<Rightarrow> (js_error + bool promise) \<times> document" where
  "copyToClipboard nav text d =
     (case clipboard nav of
        None \<Rightarrow> (Inl TypeError, d)
      | Some writeText \<Rightarrow>
          (let (pr, d') = catch_promise (then_promise (writeText text) (\<lambda>_. True))
                            (fallback_copy nav text) d
           in (Inr pr, d')))"


section \<open>Escaping markup\<close>

text \<open>
  A script string is a list of UTF-16 code units. \<^verbatim>\<open>sanitizeHTML\<close> creates a detached
  \<^verbatim>\<open>div\<close>, sets its \<^verbatim>\<open>textContent\<close> and reads its \<^verbatim>\<open>innerHTML\<close>. Setting
  \<^verbatim>\<open>textContent\<close> replaces the children by one text node holding the string (by nothing
  for the empty string); \<^verbatim>\<open>innerHTML\<close> serialises the children, and the serialisation of
  a text node in a \<^verbatim>\<open>div\<close> escapes the ampersand, the no-break space and the two angle
  brackets. The two accessors belong to the browser, not to the script: they are written
  here after the HTML standard (the \<^verbatim>\<open>textContent\<close> setter of the DOM and the fragment
  serialisation algorithm, which escapes exactly these four characters in text).
\<close>

type_synonym js_string = "nat list"

definition js :: "string \<Rightarrow> js_string" where
  "js s = map of_char s"

datatype node = Text js_string

definition escape_unit :: "nat \<Rightarrow> js_string" where
  "escape_unit c =
     (if c = 38 then js ''&amp;''
      else if c = 160 then js ''&nbsp;''
      else if c = 60 then js ''&lt;''
      else if c = 62 then js ''&gt;''
      else [c])"

definition escape_text :: "js_string \<Rightarrow> js_string" where
  "escape_text s = concat (map escape_unit s)"

definition set_textContent :: "js_string \<Rightarrow> node list" where
  "set_textContent str = (if str = [] then [] else [Text str])"

fun serialize_node :: "node \<Rightarrow> js_string" where
  "serialize_node (Text s) = escape_text s"

definition innerHTML :: "node list \<Rightarrow> js_string" where
  "innerHTML children = concat (map serialize_node children)"

definition sanitizeHTML :: "js_string \<Rightarrow> js_string" where
  "sanitizeHTML str = (let d = set_textContent str in innerHTML d)"

text \<open>
  What a markup parser makes of text content: a character reference among the four above
  stands for its character, every other code unit for itself.
\<close>

fun decode_text :: "js_string \<Rightarrow> js_string" where
  "decode_text [] = []"
| "decode_text (c # cs) =
     (if c = 38 \<and> take 4 cs = js ''amp;'' then 38 # decode_text (drop 4 cs)
      else if c = 38 \<and> take 5 cs = js ''nbsp;'' then 160 # decode_text (drop 5 cs)
      else if c = 38 \<and> take 3 cs = js ''lt;'' then 60 # decode_text (drop 3 cs)
      else if c = 38 \<and> take 3 cs = js ''gt;'' then 62 # decode_text (drop 3 cs)
      else c # decode_text cs)"

text \<open>
  What a markup parser takes as the value of an attribute written between double
  quotation marks, from the text that follows the opening mark: the code units before the
  next double quotation mark (code unit 34).
\<close>

definition quoted_attribute_value :: "js_string \<Rightarrow> js_string" where
  "quoted_attribute_value s = takeWhile (\<lambda>c. c \<noteq> 34) s"


section \<open>Error handling wrapper\<close>

text \<open>
  The second argument of \<^verbatim>\<open>withErrorHandling\<close> is a function (\<^verbatim>\<open>typeof fallback === 'function'\<close>)
  or any other value, \<^verbatim>\<open>undefined\<close> when the caller gives none. The parameter is declared
  \<^verbatim>\<open>fallback = null\<close>: an argument that is \<^verbatim>\<open>undefined\<close>, left out or passed as such, binds
  the parameter to \<^verbatim>\<open>null\<close>; every other argument binds it to itself. \<^verbatim>\<open>console.error\<close>
  appends the error to the console.
\<close>

datatype ('a, 'e, 'v) fallback = Invocable "'a list \<Rightarrow> 'e + 'v js_value" | Static "'v js_value"

definition fallback_parameter :: "('a, 'e, 'v) fallback \<Rightarrow> ('a, 'e, 'v) fallback" where
  "fallback_parameter argument =
     (case argument of
        Invocable g \<Rightarrow> Invocable g
      | Static v \<Rightarrow> (case v of Undefined \<Rightarrow> Static Null | Null \<Rightarrow> Static Null | Value x \<Rightarrow> Static (Value x)))"

definition withErrorHandling ::
  "('a list \<Rightarrow> 'e + 'v js_value) \<Rightarrow> ('a, 'e, 'v) fallback \<Rightarrow> 'a list \<Rightarrow> 'e list \<Rightarrow> ('e + 'v js_value) \<times> 'e list" where
  "withErrorHandling fn argument args console =
     (let fallback = fallback_parameter argument in
      case fn args of
        Inr v \<Rightarrow> (Inr v, console)
      | Inl error \<Rightarrow>
          (let console' = console @ [error] in
           case fallback of
             Invocable g \<Rightarrow> (g args, console')
           | Static v \<Rightarrow> (Inr v, console')))"

definition withErrorHandling_default ::
  "('a list \<Rightarrow> 'e + 'v js_value) \<Rightarrow> 'a list \<Rightarrow> 'e list \<Rightarrow> ('e + 'v js_value) \<times> 'e list" where
  "withErrorHandling_default fn = withErrorHandling fn (Static Undefined)"


section \<open>Reference definitions and sample inputs\<close>

text \<open>
  The last segment of a path, said directly: what follows the last slash (the whole path
  when it has none).
\<close>

definition last_segment :: "string \<Rightarrow> string" where
  "last_segment P = rev (takeWhile (\<lambda>c. c \<noteq> CHR ''/'') (rev P))"

text \<open>A page with two navigation links and a mobile toggle, at \<^verbatim>\<open>/site/about.html\<close>.\<close>

definition nav_example :: page where
  "nav_example =
     \<lparr>elements =
        [\<lparr>attr_id = None, classList = [''nav-link'', ''active''], attr_href = Some ''index.html'',
          attr_data_animate = None, style_opacity = None, style_animation = None,
          textContent = ''Home'', click_listeners = []\<rparr>,
         \<lparr>attr_id = None, classList = [''nav-link''], attr_href = Some ''about.html'',
          attr_data_animate = None, style_opacity = None, style_animation = None,
          textContent = ''About'', click_listeners = []\<rparr>,
         \<lparr>attr_id = Some ''mobile-nav-toggle'', classList = [], attr_href = None,
          attr_data_animate = None, style_opacity = None, style_animation = None,
          textContent = ''Menu'', click_listeners = []\<rparr>],
      body_classList = [], localStorage = (\<lambda>k. None), location_pathname = ''/site/about.html'',
      has_IntersectionObserver = True, observed = [], animation_writes = []\<rparr>"

text \<open>The theme component's invariant: the body carries \<^verbatim>\<open>light-theme\<close> exactly when the
  stored value of \<^verbatim>\<open>theme\<close> is \<^verbatim>\<open>light\<close>.\<close>

definition theme_agrees :: "page \<Rightarrow> bool" where
  "theme_agrees p =
     (classList_contains ''light-theme'' (body_classList p) = (localStorage p ''theme'' = Some ''light''))"



text \<open>A page whose only element is the mobile toggle: it has no \<^verbatim>\<open>.nav-links\<close> container.\<close>

definition toggle_only_example :: page where
  "toggle_only_example =
     \<lparr>elements =
        [\<lparr>attr_id = Some ''mobile-nav-toggle'', classList = [], attr_href = None,
          attr_data_animate = None, style_opacity = None, style_animation = None,
          textContent = ''Menu'', click_listeners = []\<rparr>],
      body_classList = [], localStorage = (\<lambda>k. None), location_pathname = ''/index.html'',
      has_IntersectionObserver = True, observed = [], animation_writes = []\<rparr>"

text \<open>A function that raises on the empty argument list and returns the sum otherwise.\<close>

definition failing_fn :: "nat list \<Rightarrow> string + nat js_value" where
  "failing_fn args = (if args = [] then Inl ''no arguments'' else Inr (Value (sum_list args)))"

text \<open>A string with two double quotation marks (character \<^verbatim>\<open>0x22\<close>) in it.\<close>

definition quote_example :: string where
  "quote_example = ''x'' @ [CHR 0x22] @ '' onclick='' @ [CHR 0x22] @ ''alert(1)''"

text \<open>
  A browser without the clipboard interface, in which the copy command works; and a
  document with an empty body.
\<close>

definition old_browser :: navigator where
  "old_browser = \<lparr>clipboard = None, execCommand_copy = (\<lambda>text. Inr True)\<rparr>"

definition empty_document :: document where
  "empty_document = \<lparr>next_node = 0, body_children = [], dom_trace = []\<rparr>"

text \<open>
  Call times in which each call comes less than \<open>wait\<close> after the one before it; and the
  invocations a sequence of debounced calls gives rise to before its last call: a call is
  followed by an invocation when the next call comes no sooner than \<open>wait\<close> after it.
\<close>

fun within :: "nat \<Rightarrow> nat list \<Rightarrow> bool" where
  "within wait [] = True"
| "within wait [t] = True"
| "within wait (t # t' # ts) = (t \<le> t' \<and> t' < t + wait \<and> within wait (t' # ts))"

fun fired :: "nat \<Rightarrow> (nat \<times> 'a list) list \<Rightarrow> (nat \<times> 'a list) list" where
  "fired wait [] = []"
| "fired wait [c] = []"
| "fired wait (c # c' # cs) =
     (if fst c + wait \<le> fst c' then [(fst c + wait, snd c)] else []) @ fired wait (c' # cs)"

text \<open>Three calls 40 and 50 milliseconds apart; a function that returns; one that raises.\<close>

definition burst_example :: "(nat \<times> string list) list" where
  "burst_example = [(0, [''a'']), (40, [''b'']), (90, [''c''])]"

definition echo :: "string list \<Rightarrow> string + nat" where
  "echo args = Inr (length args)"











section \<open>Verification\<close>

subsection \<open>Navigation\<close>

lemma js_split_nonempty: "js_split sep s \<noteq> []"
  by (induction s) (auto split: list.splits)

lemma js_split_no_sep: "sep \<notin> set s \<Longrightarrow> js_split sep s = [s]"
  by (induction s) auto

lemma js_split_sep: "sep \<in> set s \<Longrightarrow> \<exists>w w' ws. js_split sep s = w # w' # ws"
proof (induction s)
  case Nil
  then show ?case by simp
next
  case (Cons c cs)
  show ?case
  proof (cases "c = sep")
    case True
    then show ?thesis using js_split_nonempty[of sep cs]
      by (cases "js_split sep cs") auto
  next
    case False
    with Cons.prems have "sep \<in> set cs" by simp
    from Cons.IH[OF this] False show ?thesis by auto
  qed
qed

lemma last_js_split: "last (js_split sep s) = rev (takeWhile (\<lambda>c. c \<noteq> sep) (rev s))"
proof (induction s)
  case Nil
  then show ?case by simp
next
  case (Cons c cs)
  show ?case
  proof (cases "sep \<in> set cs")
    case True
    from js_split_sep[OF True] obtain w w' ws where sp: "js_split sep cs = w # w' # ws" by blast
    have "last (js_split sep (c # cs)) = last (js_split sep cs)"
      using sp by simp
    moreover have "takeWhile (\<lambda>c. c \<noteq> sep) (rev (c # cs)) = takeWhile (\<lambda>c. c \<noteq> sep) (rev cs)"
      using True by (auto simp add: takeWhile_append)
    ultimately show ?thesis using Cons.IH by simp
  next
    case False
    then show ?thesis
      by (cases "c = sep") (simp_all add: js_split_no_sep takeWhile_append)
  qed
qed

text \<open>The page name the script computes is the last segment, or the index name.\<close>

lemma currentPage_last_segment:
  "currentPage P = (if last_segment P = [] then ''index.html'' else last_segment P)"
  by (simp add: currentPage_def pop_def js_split_nonempty last_js_split last_segment_def)

text \<open>A loop that updates each listed element once changes exactly the listed elements.\<close>

lemma elements_forEach_update:
  "distinct idxs \<Longrightarrow> \<forall>i\<in>set idxs. i < length (elements p) \<Longrightarrow>
   length (elements (forEach idxs (\<lambda>i. update_element i f) p)) = length (elements p) \<and>
   (\<forall>j < length (elements p). elements (forEach idxs (\<lambda>i. update_element i f) p) ! j =
      (if j \<in> set idxs then f (elements p ! j) else elements p ! j))"
proof (induction idxs arbitrary: p)
  case Nil
  then show ?case by (simp add: forEach_def)
next
  case (Cons a idxs)
  let ?q = "update_element a f p"
  have len: "length (elements ?q) = length (elements p)" by (simp add: update_element_def)
  have "\<forall>i\<in>set idxs. i < length (elements ?q)" using Cons.prems len by simp
  with Cons.IH[of ?q] Cons.prems
  have IH: "length (elements (forEach idxs (\<lambda>i. update_element i f) ?q)) = length (elements ?q) \<and>
   (\<forall>j < length (elements ?q). elements (forEach idxs (\<lambda>i. update_element i f) ?q) ! j =
      (if j \<in> set idxs then f (elements ?q ! j) else elements ?q ! j))" by simp
  have fe: "forEach (a # idxs) (\<lambda>i. update_element i f) p = forEach idxs (\<lambda>i. update_element i f) ?q"
    by (simp add: forEach_def)
  show ?case unfolding fe using IH Cons.prems
    by (auto simp: update_element_def nth_list_update)
qed

lemma querySelectorAll_class_props:
  "distinct (querySelectorAll_class c p) \<and>
   set (querySelectorAll_class c p) =
     {i. i < length (elements p) \<and> classList_contains c (classList (elements p ! i))}"
  by (auto simp: querySelectorAll_class_def)

lemma mark_link_active:
  "classList_contains ''active'' (classList (mark_link cur l)) = (attr_href l = Some cur)"
  by (simp add: mark_link_def classList_contains_def classList_add_def classList_remove_def Let_def)

lemma mark_link_keeps:
  "attr_href (mark_link cur l) = attr_href l"
  "c \<noteq> ''active'' \<Longrightarrow>
     classList_contains c (classList (mark_link cur l)) = classList_contains c (classList l)"
  by (auto simp add: mark_link_def classList_contains_def classList_add_def classList_remove_def Let_def)

lemma addEventListener_elements:
  "length (elements (addEventListener t l p)) = length (elements p)"
  "i < length (elements p) \<Longrightarrow>
     classList (elements (addEventListener t l p) ! i) = classList (elements p ! i)"
  "i < length (elements p) \<Longrightarrow>
     attr_href (elements (addEventListener t l p) ! i) = attr_href (elements p ! i)"
  by (cases "i = t"; simp add: addEventListener_def update_element_def)+

text \<open>
  Claim C1. After \<open>initializeNavigation\<close>, on any page and at any path, a navigation link
  (an element of class \<^verbatim>\<open>nav-link\<close>) carries the class \<^verbatim>\<open>active\<close> if and only if its
  \<^verbatim>\<open>href\<close> attribute is the last segment of the path, or \<^verbatim>\<open>index.html\<close> when that segment
  is empty. So the matching link is marked, every other link is not, and no link is marked
  when none matches. The links stay the same elements with the same targets. Links that
  share the matching target are all marked.
\<close>

theorem initializeNavigation_active:
  assumes "i < length (elements p)"
    and "classList_contains ''nav-link'' (classList (elements p ! i))"
  shows "length (elements (initializeNavigation p)) = length (elements p) \<and>
         attr_href (elements (initializeNavigation p) ! i) = attr_href (elements p ! i) \<and>
         classList_contains ''nav-link'' (classList (elements (initializeNavigation p) ! i)) \<and>
         (classList_contains ''active'' (classList (elements (initializeNavigation p) ! i)) \<longleftrightarrow>
            attr_href (elements p ! i) =
              Some (if last_segment (location_pathname p) = [] then ''index.html''
                    else last_segment (location_pathname p)))"
proof -
  let ?cur = "currentPage (location_pathname p)"
  let ?links = "querySelectorAll_class ''nav-link'' p"
  let ?p1 = "forEach ?links (\<lambda>i. update_element i (mark_link ?cur)) p"
  have mem: "i \<in> set ?links" using assms by (simp add: querySelectorAll_class_props)
  have fe: "length (elements ?p1) = length (elements p) \<and>
         (\<forall>j < length (elements p). elements ?p1 ! j =
            (if j \<in> set ?links then mark_link ?cur (elements p ! j) else elements p ! j))"
    by (rule elements_forEach_update) (simp_all add: querySelectorAll_class_props)
  then have at_i: "elements ?p1 ! i = mark_link ?cur (elements p ! i)"
    using assms(1) mem by simp
  have len1: "length (elements ?p1) = length (elements p)" using fe by simp
  have shape: "initializeNavigation p = ?p1 \<or>
               (\<exists>t. initializeNavigation p = addEventListener t MobileNavClick ?p1)"
    by (auto simp add: initializeNavigation_def Let_def split: option.splits)
  have cur: "?cur = (if last_segment (location_pathname p) = [] then ''index.html''
                    else last_segment (location_pathname p))"
    by (rule currentPage_last_segment)
  from shape show ?thesis
  proof
    assume "initializeNavigation p = ?p1"
    then show ?thesis using at_i len1 assms(2) cur
      by (simp add: mark_link_active mark_link_keeps)
  next
    assume "\<exists>t. initializeNavigation p = addEventListener t MobileNavClick ?p1"
    then obtain t where "initializeNavigation p = addEventListener t MobileNavClick ?p1" by blast
    then show ?thesis using at_i len1 assms cur
      by (simp add: addEventListener_elements mark_link_active mark_link_keeps)
  qed
qed

theorem initializeNavigation_active_witness:
  "1 < length (elements nav_example) \<and>
   classList_contains ''nav-link'' (classList (elements nav_example ! 1)) \<and>
   classList_contains ''active'' (classList (elements (initializeNavigation nav_example) ! 1)) \<and>
   \<not> classList_contains ''active'' (classList (elements (initializeNavigation nav_example) ! 0))"
proof -
  have h0: "0 < length (elements nav_example)"
    and n0: "classList_contains ''nav-link'' (classList (elements nav_example ! 0))"
    and h1: "1 < length (elements nav_example)"
    and n1: "classList_contains ''nav-link'' (classList (elements nav_example ! 1))"
    by (simp_all add: nav_example_def classList_contains_def)
  have seg: "last_segment (location_pathname nav_example) = ''about.html''"
    by (simp add: nav_example_def last_segment_def)
  have "classList_contains ''active'' (classList (elements (initializeNavigation nav_example) ! 1))"
    using initializeNavigation_active[OF h1 n1] seg by (simp add: nav_example_def)
  moreover have "\<not> classList_contains ''active'' (classList (elements (initializeNavigation nav_example) ! 0))"
    using initializeNavigation_active[OF h0 n0] seg by (simp add: nav_example_def)
  ultimately show ?thesis using h1 n1 by simp
qed


subsection \<open>Missing elements\<close>

text \<open>
  The lookups of the page-load code are guarded: where the element is missing, the
  operation leaves the page as it is.
\<close>

lemma initializeTheme_missing:
  "getElementById ''theme-toggle'' p = None \<Longrightarrow> initializeTheme p = p"
  by (simp add: initializeTheme_def)

lemma updateThemeIcon_missing:
  "getElementById ''theme-toggle'' p = None \<Longrightarrow> updateThemeIcon b p = p"
  by (simp add: updateThemeIcon_def)

lemma initializeNavigation_missing:
  "querySelectorAll_class ''nav-link'' p = [] \<Longrightarrow> getElementById ''mobile-nav-toggle'' p = None \<Longrightarrow>
   initializeNavigation p = p"
  by (simp add: initializeNavigation_def forEach_def)

lemma initializeAnimations_missing:
  "querySelectorAll_data_animate p = [] \<Longrightarrow> initializeAnimations p = p"
  by (simp add: initializeAnimations_def)

text \<open>The handler of the mobile toggle is not: without a container it raises.\<close>

lemma mobileNavClick_missing_container:
  "querySelector_class ''nav-links'' p = None \<Longrightarrow> mobileNavClick p = Inl TypeError"
  by (simp add: mobileNavClick_def)

text \<open>
  Claim C3 says that a missing element never makes an operation of the script raise, the
  click handler of the mobile toggle included. On a page that has the mobile toggle and no
  element of class \<^verbatim>\<open>nav-links\<close>, the page loads, the handler is registered, and a click on
  the toggle reports a \<^verbatim>\<open>TypeError\<close>: the handler reads \<^verbatim>\<open>classList\<close> of the missing
  container.
\<close>

theorem mobile_toggle_click_raises:
  "getElementById ''mobile-nav-toggle'' toggle_only_example = Some 0 \<and>
   querySelector_class ''nav-links'' toggle_only_example = None \<and>
   fst (click 0 (DOMContentLoaded toggle_only_example)) = [TypeError]"
  by (simp add: click_def DOMContentLoaded_def toggle_only_example_def initializeTheme_def
      initializeAnimations_def initializeNavigation_def getElementById_def
      querySelectorAll_class_def querySelectorAll_data_animate_def forEach_def
      addEventListener_def update_element_def Let_def mobileNavClick_def querySelector_class_def
      classList_contains_def)


subsection \<open>Theme\<close>

lemma update_element_theme [simp]:
  "body_classList (update_element i f p) = body_classList p"
  "localStorage (update_element i f p) = localStorage p"
  by (simp_all add: update_element_def)

lemma updateThemeIcon_theme [simp]:
  "body_classList (updateThemeIcon b p) = body_classList p"
  "localStorage (updateThemeIcon b p) = localStorage p"
  by (simp_all add: updateThemeIcon_def split: option.splits)

lemma themeToggleClick_agrees:
  "\<exists>q. themeToggleClick p = Inr q \<and> theme_agrees q"
  by (simp add: themeToggleClick_def theme_agrees_def Let_def classList_contains_def
      classList_toggle_def classList_add_def classList_remove_def)

lemma mobileNavClick_theme:
  "mobileNavClick p = Inr q \<Longrightarrow> body_classList q = body_classList p \<and> localStorage q = localStorage p"
  by (auto simp: mobileNavClick_def split: option.splits)

text \<open>A click that runs the theme handler, among whatever other listeners, ends in agreement.\<close>

lemma dispatch_agrees:
  "theme_agrees p \<or> ThemeToggleClick \<in> set ls \<Longrightarrow> theme_agrees (snd (dispatch ls (errs, p)))"
proof (induction ls arbitrary: errs p)
  case Nil
  then show ?case by simp
next
  case (Cons l ls)
  show ?case
  proof (cases l)
    case MobileNavClick
    show ?thesis
    proof (cases "mobileNavClick p")
      case (Inl e)
      then show ?thesis using MobileNavClick Cons by simp
    next
      case (Inr q)
      from mobileNavClick_theme[OF Inr] have "theme_agrees q = theme_agrees p"
        by (simp add: theme_agrees_def)
      then show ?thesis using MobileNavClick Cons Inr by simp
    qed
  next
    case ThemeToggleClick
    from themeToggleClick_agrees[of p] obtain q where q: "themeToggleClick p = Inr q" "theme_agrees q"
      by blast
    then show ?thesis using ThemeToggleClick Cons.IH[of q errs] by simp
  qed
qed






subsection \<open>Error handling wrapper\<close>

text \<open>
  Claim C9, as stated for every fallback, fails for the fallback \<^verbatim>\<open>undefined\<close> passed
  explicitly: when the wrapped function raises, the wrapper returns \<^verbatim>\<open>null\<close>, not the
  fallback value itself, because the default of the parameter replaces an \<^verbatim>\<open>undefined\<close>
  argument.
\<close>

theorem withErrorHandling_undefined_fallback:
  "failing_fn [] = Inl ''no arguments'' \<and>
   fst (withErrorHandling failing_fn (Static Undefined) [] []) = Inr Null \<and>
   fst (withErrorHandling failing_fn (Static Undefined) [] []) \<noteq> Inr Undefined"
  by (simp add: withErrorHandling_def fallback_parameter_def failing_fn_def)

text \<open>
  Claim C9, amended. The wrapper returns what \<open>fn\<close> returns when \<open>fn\<close> does not raise, and
  the console is left alone. When \<open>fn\<close> raises, the error is logged and the outcome of the
  wrapper is the outcome of the fallback called with the same arguments when the fallback
  is a function; the fallback value itself when it is any other value but \<^verbatim>\<open>undefined\<close>;
  and \<^verbatim>\<open>null\<close> when the fallback is \<^verbatim>\<open>undefined\<close>, passed as such or left out. The error
  of \<open>fn\<close> is never passed on: with a fallback that is not a function the wrapper does not
  raise at all, and with a function as fallback it raises only an error that the fallback
  itself raised.
\<close>

theorem withErrorHandling_outcome:
  "(fn args = Inr v \<longrightarrow> withErrorHandling fn fb args console = (Inr v, console)) \<and>
   (fn args = Inl err \<longrightarrow>
      withErrorHandling fn (Invocable g) args console = (g args, console @ [err]) \<and>
      (w \<noteq> Undefined \<longrightarrow>
         withErrorHandling fn (Static w) args console = (Inr w, console @ [err])) \<and>
      withErrorHandling fn (Static Undefined) args console = (Inr Null, console @ [err]) \<and>
      withErrorHandling_default fn args console = (Inr Null, console @ [err])) \<and>
   fst (withErrorHandling fn (Static w) args console) \<noteq> Inl e \<and>
   (fst (withErrorHandling fn (Invocable g) args console) = Inl e \<longrightarrow>
      (\<exists>err. fn args = Inl err) \<and> g args = Inl e)"
  by (cases w)
     (auto simp: withErrorHandling_def withErrorHandling_default_def fallback_parameter_def Let_def
        split: sum.splits)

theorem withErrorHandling_outcome_witness:
  "failing_fn [1, 2] = Inr (Value 3) \<and>
   withErrorHandling failing_fn (Static Null) [1, 2] [] = (Inr (Value 3), []) \<and>
   failing_fn [] = Inl ''no arguments'' \<and>
   withErrorHandling failing_fn (Invocable (\<lambda>args. Inr (Value (length args)))) [] [] =
     (Inr (Value 0), [''no arguments'']) \<and>
   withErrorHandling failing_fn (Static (Value 7)) [] [] = (Inr (Value 7), [''no arguments'']) \<and>
   withErrorHandling_default failing_fn [] [] = (Inr Null, [''no arguments''])"
proof -
  have a: "failing_fn [1, 2] = Inr (Value 3)" and b: "failing_fn [] = Inl ''no arguments''"
    by (simp_all add: failing_fn_def)
  show ?thesis
    using a b
      withErrorHandling_outcome[of failing_fn "[1, 2]" "Value 3" "Static Null" "[]"]
      withErrorHandling_outcome[of failing_fn "[]" _ _ "[]" "''no arguments''"
        "\<lambda>args. Inr (Value (length args))" "Value 7"]
    by simp
qed


subsection \<open>Escaping markup\<close>

lemma sanitizeHTML_escape: "sanitizeHTML s = escape_text s"
  by (simp add: sanitizeHTML_def set_textContent_def innerHTML_def escape_text_def)

lemma js_vals:
  "js ''&amp;'' = [38, 97, 109, 112, 59]" "js ''&nbsp;'' = [38, 110, 98, 115, 112, 59]"
  "js ''&lt;'' = [38, 108, 116, 59]" "js ''&gt;'' = [38, 103, 116, 59]"
  "js ''amp;'' = [97, 109, 112, 59]" "js ''nbsp;'' = [110, 98, 115, 112, 59]"
  "js ''lt;'' = [108, 116, 59]" "js ''gt;'' = [103, 116, 59]"
  by (simp_all add: js_def)

lemma escape_unit_no_angle: "60 \<notin> set (escape_unit c) \<and> 62 \<notin> set (escape_unit c)"
  by (simp add: escape_unit_def js_vals)

lemma escape_text_no_angle: "60 \<notin> set (escape_text s) \<and> 62 \<notin> set (escape_text s)"
  using escape_unit_no_angle by (auto simp: escape_text_def)

lemma decode_escape_unit: "decode_text (escape_unit c @ rest) = c # decode_text rest"
  by (simp add: escape_unit_def js_vals)

lemma decode_escape_text: "decode_text (escape_text s) = s"
  by (induction s) (simp_all add: escape_text_def decode_escape_unit)

lemma sanitizeHTML_append: "sanitizeHTML (s @ t) = sanitizeHTML s @ sanitizeHTML t"
  by (simp add: sanitizeHTML_escape escape_text_def)

lemma sanitizeHTML_unit: "sanitizeHTML [c] = escape_unit c"
  by (simp add: sanitizeHTML_escape escape_text_def)

text \<open>
  Claim C7, as stated, fails for the quotation marks, which are significant in markup (they
  end an attribute value) and are not escaped: \<open>sanitizeHTML\<close> returns the sample string as
  it is, with both marks in it, and inserted as a quoted attribute value the output ends
  the value after its first character.
\<close>

theorem sanitizeHTML_keeps_quotes:
  "sanitizeHTML (js quote_example) = js quote_example \<and>
   34 \<in> set (sanitizeHTML (js quote_example)) \<and>
   quoted_attribute_value (sanitizeHTML (js quote_example)) = js ''x'' \<and>
   sanitizeHTML (js [CHR 0x22, CHR 0x27]) = js [CHR 0x22, CHR 0x27]"
  by (simp add: sanitizeHTML_escape escape_text_def escape_unit_def js_def quote_example_def
      quoted_attribute_value_def)

text \<open>
  Claim C7, amended. \<open>sanitizeHTML\<close> maps \<^verbatim>\<open><script>\<close> to \<^verbatim>\<open>&lt;script&gt;\<close>. It works
  character by character: the ampersand, the two angle brackets and the no-break space (code
  units 38, 60, 62 and 160) are replaced by their character references, and every other
  code unit, the quotation marks among them, is kept. The output holds no angle bracket, so
  no tag can start in it, and read as the text content of an element it gives back the
  input: it is safe to insert as element content.
\<close>

theorem sanitizeHTML_escapes:
  "sanitizeHTML (js ''<script>'') = js ''&lt;script&gt;'' \<and>
   sanitizeHTML (s @ t) = sanitizeHTML s @ sanitizeHTML t \<and>
   sanitizeHTML [38] = js ''&amp;'' \<and> sanitizeHTML [60] = js ''&lt;'' \<and>
   sanitizeHTML [62] = js ''&gt;'' \<and> sanitizeHTML [160] = js ''&nbsp;'' \<and>
   (c \<noteq> 38 \<and> c \<noteq> 60 \<and> c \<noteq> 62 \<and> c \<noteq> 160 \<longrightarrow> sanitizeHTML [c] = [c]) \<and>
   60 \<notin> set (sanitizeHTML s) \<and> 62 \<notin> set (sanitizeHTML s) \<and>
   decode_text (sanitizeHTML s) = s"
proof -
  have "sanitizeHTML (js ''<script>'') = js ''&lt;script&gt;''"
    by (simp add: sanitizeHTML_escape escape_text_def escape_unit_def js_def)
  moreover have "60 \<notin> set (sanitizeHTML s) \<and> 62 \<notin> set (sanitizeHTML s)"
    using escape_text_no_angle[of s] by (simp add: sanitizeHTML_escape)
  moreover have "decode_text (sanitizeHTML s) = s"
    using decode_escape_text[of s] by (simp add: sanitizeHTML_escape)
  moreover have "sanitizeHTML [38] = js ''&amp;''" "sanitizeHTML [60] = js ''&lt;''"
    "sanitizeHTML [62] = js ''&gt;''" "sanitizeHTML [160] = js ''&nbsp;''"
    "c \<noteq> 38 \<and> c \<noteq> 60 \<and> c \<noteq> 62 \<and> c \<noteq> 160 \<longrightarrow> sanitizeHTML [c] = [c]"
    by (simp_all add: sanitizeHTML_unit escape_unit_def)
  ultimately show ?thesis using sanitizeHTML_append[of s t] by blast
qed

theorem sanitizeHTML_escapes_witness:
  "sanitizeHTML (js ''a<b & c>d'') = js ''a&lt;b &amp; c&gt;d'' \<and>
   decode_text (sanitizeHTML (js ''a<b & c>d'')) = js ''a<b & c>d'' \<and>
   sanitizeHTML [34] = [34]"
proof -
  note t = sanitizeHTML_escapes[of "js ''a<b & c>d''" "[]" 34]
  have e: "sanitizeHTML (js ''a<b & c>d'') = js ''a&lt;b &amp; c&gt;d''"
    by (simp add: sanitizeHTML_escape escape_text_def escape_unit_def js_def)
  have d: "decode_text (sanitizeHTML (js ''a<b & c>d'')) = js ''a<b & c>d''"
    using t by blast
  have q: "sanitizeHTML [34] = [34]"
    using t by simp
  show ?thesis using e d q by blast
qed

subsection \<open>Copy to clipboard\<close>

text \<open>With the clipboard interface present, a write that succeeds gives true and leaves the
  document untouched.\<close>

lemma copyToClipboard_primary:
  "clipboard nav = Some writeText \<Longrightarrow> writeText text = Resolved u \<Longrightarrow>
   copyToClipboard nav text d = (Inr (Resolved True), d)"
  by (simp add: copyToClipboard_def catch_promise_def then_promise_def)

text \<open>
  With the interface present, a write that is rejected runs the fallback: a fresh node is
  created, appended, selected and removed again, whether the copy command returns or
  raises; the promise resolves to false only when the command raises.
\<close>

lemma copyToClipboard_fallback:
  "clipboard nav = Some writeText \<Longrightarrow> writeText text = Rejected \<Longrightarrow>
   copyToClipboard nav text d =
     (Inr (Resolved (case execCommand_copy nav text of Inr b \<Rightarrow> True | Inl err \<Rightarrow> False)),
      d\<lparr>next_node := Suc (next_node d),
        body_children := filter (\<lambda>m. m \<noteq> next_node d) (body_children d),
        dom_trace := dom_trace d @ [CreateElement (next_node d), AppendChild (next_node d),
                                    Select (next_node d), RemoveChild (next_node d)]\<rparr>)"
  by (simp add: copyToClipboard_def catch_promise_def then_promise_def fallback_copy_def
      createElement_def appendChild_def select_def removeChild_def Let_def split: sum.splits)

lemma copyToClipboard_unavailable:
  "clipboard nav = None \<Longrightarrow> copyToClipboard nav text d = (Inl TypeError, d)"
  by (simp add: copyToClipboard_def)

text \<open>
  Claim C6 says that when the primary write fails, the fallback runs and the promise
  resolves to its outcome. In a browser without \<^verbatim>\<open>navigator.clipboard\<close> (the older
  browsers the fallback is written for) the primary write fails before any promise
  exists: \<^verbatim>\<open>navigator.clipboard.writeText\<close> raises a \<^verbatim>\<open>TypeError\<close>, \<open>copyToClipboard\<close>
  raises it to its caller, no node is created and nothing resolves, although the copy
  command of that browser would have worked.
\<close>

theorem copyToClipboard_old_browser_raises:
  "execCommand_copy old_browser ''hello'' = Inr True \<and>
   copyToClipboard old_browser ''hello'' empty_document = (Inl TypeError, empty_document)"
  by (simp add: copyToClipboard_def old_browser_def)

subsection \<open>Debounce\<close>

text \<open>The event loops are unfolded by the lemmas below, one firing at a time.\<close>

declare d_advance.simps [simp del] t_advance.simps [simp del]

lemma next_due_Nil [simp]: "next_due T [] = None"
  by (simp add: next_due_def)

lemma next_due_single [simp]: "next_due T [t] = (if fst (snd t) \<le> T then Some t else None)"
  by (simp add: next_due_def)

lemma d_advance_idle:
  "d_timers s = [] \<Longrightarrow> d_advance func T s = s\<lparr>d_now := max (d_now s) T\<rparr>"
  by (simp add: d_advance.simps)

lemma d_advance_wait:
  "d_timers s = [(h, d, a)] \<Longrightarrow> T < d \<Longrightarrow> d_advance func T s = s\<lparr>d_now := max (d_now s) T\<rparr>"
  by (simp add: d_advance.simps)

lemma d_advance_fire:
  "d_timers s = [(h, d, a)] \<Longrightarrow> d \<le> T \<Longrightarrow>
   d_advance func T s =
     s\<lparr>d_now := max (max (d_now s) d) T, d_timers := [],
       d_calls := d_calls s @ [(max (d_now s) d, a)]\<rparr>"
  by (subst d_advance.simps)
     (simp add: later_def Let_def clearTimeout_def d_advance_idle split: sum.splits option.splits)

lemma executedFunction_pending:
  "d_timers s = [] \<or> (\<exists>d a. d_timers s = [(h, d, a)] \<and> timeout s = Some h) \<Longrightarrow>
   snd (executedFunction wait args s) =
     s\<lparr>d_timers := [(d_next_handle s, d_now s + wait, args)],
       d_next_handle := Suc (d_next_handle s), timeout := Some (d_next_handle s)\<rparr>"
  by (auto simp: executedFunction_def Let_def clearTimeout_def setTimeout_def split: option.splits)

text \<open>One call in a state with one pending timeout that the closure variable names.\<close>

lemma d_step:
  assumes "d_timers s = [(h, d_now s + wait, a)]" "timeout s = Some h" "d_now s \<le> t"
  shows "snd (executedFunction wait args (d_advance func t s)) =
     s\<lparr>d_now := t,
       d_timers := [(d_next_handle s, t + wait, args)],
       d_next_handle := Suc (d_next_handle s), timeout := Some (d_next_handle s),
       d_calls := d_calls s @ (if d_now s + wait \<le> t then [(d_now s + wait, a)] else [])\<rparr>"
proof (cases "d_now s + wait \<le> t")
  case True
  have adv: "d_advance func t s = s\<lparr>d_now := t, d_timers := [],
       d_calls := d_calls s @ [(d_now s + wait, a)]\<rparr>"
    using d_advance_fire[OF assms(1) True, of func] True assms(3) by (simp add: max_def)
  show ?thesis unfolding adv using True
    by (subst executedFunction_pending) simp_all
next
  case False
  then have "t < d_now s + wait" by simp
  from d_advance_wait[OF assms(1) this, of func] assms(3)
  have adv: "d_advance func t s = s\<lparr>d_now := t\<rparr>" by (simp add: max_def)
  show ?thesis unfolding adv using False assms
    by (subst executedFunction_pending) simp_all
qed

text \<open>
  A run of calls at non-decreasing times, from a state with one pending timeout: the
  timeout pending at the end is that of the last call, and the invocations so far are
  those of the calls that were left alone for \<open>wait\<close>.
\<close>

lemma d_run_calls:
  assumes "d_timers s = [(h, d_now s + wait, a)]" "timeout s = Some h"
    and "sorted (d_now s # map fst cs)"
  shows "\<exists>h'. d_timers (d_run func wait cs s) =
            [(h', fst (last ((d_now s, a) # cs)) + wait, snd (last ((d_now s, a) # cs)))] \<and>
          timeout (d_run func wait cs s) = Some h' \<and>
          d_now (d_run func wait cs s) = fst (last ((d_now s, a) # cs)) \<and>
          d_calls (d_run func wait cs s) = d_calls s @ fired wait ((d_now s, a) # cs)"
  using assms
proof (induction cs arbitrary: s h a)
  case Nil
  then show ?case by simp
next
  case (Cons c cs)
  let ?s' = "snd (executedFunction wait (snd c) (d_advance func (fst c) s) :: unit js_value \<times> 'a debounce_state)"
  have le: "d_now s \<le> fst c" using Cons.prems(3) by simp
  note st = d_step[OF Cons.prems(1,2) le, of "snd c" func]
  have 1: "d_timers ?s' = [(d_next_handle s, d_now ?s' + wait, snd c)]"
    and 2: "timeout ?s' = Some (d_next_handle s)"
    and 3: "d_now ?s' = fst c"
    and 4: "d_calls ?s' = d_calls s @ (if d_now s + wait \<le> fst c then [(d_now s + wait, a)] else [])"
    by (simp_all add: st)
  have 5: "sorted (d_now ?s' # map fst cs)" using Cons.prems(3) 3 by simp
  from Cons.IH[OF 1 2 5] obtain h' where
    ih: "d_timers (d_run func wait cs ?s') =
            [(h', fst (last ((d_now ?s', snd c) # cs)) + wait, snd (last ((d_now ?s', snd c) # cs)))]"
        "timeout (d_run func wait cs ?s') = Some h'"
        "d_now (d_run func wait cs ?s') = fst (last ((d_now ?s', snd c) # cs))"
        "d_calls (d_run func wait cs ?s') = d_calls ?s' @ fired wait ((d_now ?s', snd c) # cs)"
    by blast
  have c: "(d_now ?s', snd c) = c" using 3 by (cases c) simp
  show ?case
    using ih unfolding c 4 by (auto simp: 3)
qed


lemma within_sorted: "within wait ts \<Longrightarrow> sorted ts"
proof (induction wait ts rule: within.induct)
  case (3 wait t t' ts)
  then have "sorted (t' # ts)" and "t \<le> t'" by simp_all
  then show ?case by (auto intro: order_trans)
qed simp_all

lemma within_fired: "within wait (map fst cs) \<Longrightarrow> fired wait cs = []"
  by (induction wait cs rule: fired.induct) simp_all

lemma debounce_first:
  "snd (executedFunction wait a (d_advance func t debounce) :: unit js_value \<times> 'a debounce_state) =
     \<lparr>d_now = t, d_timers = [(1, t + wait, a)], d_next_handle = 2, timeout = Some 1, d_calls = []\<rparr>"
  by (simp add: d_advance_idle debounce_def executedFunction_def Let_def clearTimeout_def setTimeout_def)

text \<open>The invocations of a debounced function, for calls at non-decreasing times.\<close>

lemma debounce_calls:
  assumes "cs \<noteq> []" and "sorted (map fst cs)"
  shows "d_calls (d_advance func T (d_run func wait cs debounce)) =
           fired wait cs @
           (if fst (last cs) + wait \<le> T then [(fst (last cs) + wait, snd (last cs))] else [])"
    and "length (d_timers (d_run func wait cs debounce)) = 1"
proof -
  from assms(1) obtain c cs' where cs: "cs = c # cs'" by (cases cs) auto
  let ?s1 = "\<lparr>d_now = fst c, d_timers = [(1, fst c + wait, snd c)], d_next_handle = 2,
              timeout = Some 1, d_calls = ([] :: (nat \<times> 'a list) list)\<rparr>"
  have run: "d_run func wait cs debounce = d_run func wait cs' ?s1"
    unfolding cs by (simp add: debounce_first)
  have "\<exists>h'. d_timers (d_run func wait cs' ?s1) =
            [(h', fst (last ((d_now ?s1, snd c) # cs')) + wait, snd (last ((d_now ?s1, snd c) # cs')))] \<and>
          timeout (d_run func wait cs' ?s1) = Some h' \<and>
          d_now (d_run func wait cs' ?s1) = fst (last ((d_now ?s1, snd c) # cs')) \<and>
          d_calls (d_run func wait cs' ?s1) = d_calls ?s1 @ fired wait ((d_now ?s1, snd c) # cs')"
    by (rule d_run_calls[where h = 1]) (use assms(2) cs in simp_all)
  then obtain h' where
    r1: "d_timers (d_run func wait cs' ?s1) =
            [(h', fst (last ((d_now ?s1, snd c) # cs')) + wait, snd (last ((d_now ?s1, snd c) # cs')))]"
       "d_now (d_run func wait cs' ?s1) = fst (last ((d_now ?s1, snd c) # cs'))"
       "d_calls (d_run func wait cs' ?s1) = d_calls ?s1 @ fired wait ((d_now ?s1, snd c) # cs')"
    by blast
  have c: "(d_now ?s1, snd c) # cs' = cs" unfolding cs by simp
  have r: "d_timers (d_run func wait cs debounce) = [(h', fst (last cs) + wait, snd (last cs))]"
       "d_now (d_run func wait cs debounce) = fst (last cs)"
       "d_calls (d_run func wait cs debounce) = fired wait cs"
    using r1 unfolding c run by simp_all
  show "length (d_timers (d_run func wait cs debounce)) = 1" using r(1) by simp
  show "d_calls (d_advance func T (d_run func wait cs debounce)) =
           fired wait cs @
           (if fst (last cs) + wait \<le> T then [(fst (last cs) + wait, snd (last cs))] else [])"
  proof (cases "fst (last cs) + wait \<le> T")
    case True
    from d_advance_fire[OF r(1) True, of func] show ?thesis using True r(2,3) by (simp add: max_def)
  next
    case False
    then have "T < fst (last cs) + wait" by simp
    from d_advance_wait[OF r(1) this, of func] show ?thesis using False r(3) by simp
  qed
qed

text \<open>
  Claim C4. For every function and every \<open>wait\<close>, after one or more calls of the wrapper,
  each less than \<open>wait\<close> after the one before, exactly one timeout is pending (each call
  has cancelled the one before it), the function has not been invoked at any time before
  the last call plus \<open>wait\<close>, and from that time on it has been invoked exactly once, at
  the time of the last call plus \<open>wait\<close>. The model's clock counts milliseconds and a
  timeout runs at the time it is due.
\<close>

theorem debounce_once:
  assumes "cs \<noteq> []" and "within wait (map fst cs)"
  shows "length (d_timers (d_run func wait cs debounce)) = 1 \<and>
         (T < fst (last cs) + wait \<longrightarrow>
            d_calls (d_advance func T (d_run func wait cs debounce)) = []) \<and>
         (fst (last cs) + wait \<le> T \<longrightarrow>
            map fst (d_calls (d_advance func T (d_run func wait cs debounce))) = [fst (last cs) + wait])"
  using debounce_calls(1)[OF assms(1) within_sorted[OF assms(2)], where func = func and T = T and wait = wait]
    debounce_calls(2)[OF assms(1) within_sorted[OF assms(2)], where func = func and wait = wait]
    within_fired[OF assms(2)] by simp

theorem debounce_once_witness:
  "burst_example \<noteq> [] \<and> within 100 (map fst burst_example) \<and>
   d_calls (d_advance echo 150 (d_run echo 100 burst_example debounce)) = [] \<and>
   map fst (d_calls (d_advance echo 500 (d_run echo 100 burst_example debounce))) = [190]"
proof -
  have a: "burst_example \<noteq> []" and b: "within 100 (map fst burst_example)"
    by (simp_all add: burst_example_def)
  have l: "fst (last burst_example) = 90" by (simp add: burst_example_def)
  show ?thesis
    using a b debounce_once[OF a b, of echo 150] debounce_once[OF a b, of echo 500] l by simp
qed

text \<open>
  Claim C10. When the invocation after such a burst of calls has run, the function has
  received the arguments of the last call of the burst and no others; and the wrapper
  returns \<^verbatim>\<open>undefined\<close> in every state and for all arguments, whatever the function
  returns.
\<close>

theorem debounce_last_arguments:
  assumes "cs \<noteq> []" and "within wait (map fst cs)" and "fst (last cs) + wait \<le> T"
  shows "map snd (d_calls (d_advance func T (d_run func wait cs debounce))) = [snd (last cs)] \<and>
         fst (executedFunction wait args s) = Undefined"
  using debounce_calls(1)[OF assms(1) within_sorted[OF assms(2)], where func = func and T = T and wait = wait]
    within_fired[OF assms(2)] assms(3) by (simp add: executedFunction_def Let_def)

theorem debounce_last_arguments_witness:
  "burst_example \<noteq> [] \<and> within 100 (map fst burst_example) \<and>
   map snd (d_calls (d_advance echo 190 (d_run echo 100 burst_example debounce))) = [[''c'']] \<and>
   fst (executedFunction 100 [''d''] debounce) = (Undefined :: nat js_value)"
proof -
  have a: "burst_example \<noteq> []" and b: "within 100 (map fst burst_example)"
    by (simp_all add: burst_example_def)
  have l: "fst (last burst_example) + 100 \<le> 190" "snd (last burst_example) = [''c'']"
    by (simp_all add: burst_example_def)
  show ?thesis
    using a b debounce_last_arguments[OF a b l(1), of echo "[''d'']" debounce] l(2) by simp
qed


subsection \<open>Throttle\<close>












subsection \<open>Scroll animations\<close>

lemma nth_update_keeps:
  assumes "\<And>x. g (f x) = g x"
  shows "g (xs[j := f (xs ! j)] ! i) = g (xs ! i)"
proof (cases "j < length xs")
  case True
  then show ?thesis using assms by (cases "i = j") simp_all
next
  case False
  then have "xs[j := f (xs ! j)] = xs" by (simp add: list_update_beyond)
  then show ?thesis by simp
qed

lemma animation_style_cong:
  "attr_data_animate e = attr_data_animate e' \<Longrightarrow> animation_style e = animation_style e'"
  by (simp add: animation_style_def animation_name_def)

lemma animation_style_requested:
  "attr_data_animate e = Some a \<Longrightarrow> a \<noteq> [] \<Longrightarrow> animation_style e = a @ '' 0.6s ease forwards''"
  "attr_data_animate e = Some [] \<Longrightarrow> animation_style e = ''fadeInUp 0.6s ease forwards''"
  by (simp_all add: animation_style_def animation_name_def)

text \<open>What one entry does: length, requested names, trace, targets and style.\<close>

lemma on_entry_length [simp]: "length (elements (on_entry en q)) = length (elements q)"
  by (simp add: on_entry_def Let_def unobserve_def update_element_def)

lemma on_entry_style_name [simp]:
  "animation_style (elements (on_entry en q) ! i) = animation_style (elements q ! i)"
proof -
  have "attr_data_animate (elements (on_entry en q) ! i) = attr_data_animate (elements q ! i)"
    by (simp add: on_entry_def Let_def unobserve_def update_element_def nth_update_keeps)
  then show ?thesis by (rule animation_style_cong)
qed


































end
